theory Spec2Isabelle
  imports Main "HOL-Library.Sublist"
begin

section \<open>Strings and truthiness\<close>

text \<open>
  A JavaScript string is a sequence of code units; it is embedded as a \<^typ>\<open>string\<close>, one
  \<^typ>\<open>char\<close> per code unit (code units below 256). A value that may be \<^verbatim>\<open>null\<close> or
  \<^verbatim>\<open>undefined\<close> is a \<^typ>\<open>string option\<close>.

  \<^verbatim>\<open>a || b\<close> on such a value yields \<^verbatim>\<open>b\<close> when \<^verbatim>\<open>a\<close> is \<^verbatim>\<open>null\<close>, \<^verbatim>\<open>undefined\<close> or
  the empty string, and \<^verbatim>\<open>a\<close> otherwise.
\<close>

definition js_or :: "string option \<Rightarrow> string \<Rightarrow> string" where
  "js_or a b = (case a of None \<Rightarrow> b | Some s \<Rightarrow> if s = [] then b else s)"

text \<open>
  \<^verbatim>\<open>String.prototype.trim\<close> removes white space and line terminators from both ends. Among
  the code units below 256 these are TAB, LF, VT, FF, CR, SPACE and NBSP.
\<close>

definition js_whitespace :: "char \<Rightarrow> bool" where
  "js_whitespace c \<longleftrightarrow>
     c = CHR 0x09 \<or> c = CHR 0x0A \<or> c = CHR 0x0B \<or> c = CHR 0x0C \<or> c = CHR 0x0D \<or>
     c = CHR 0x20 \<or> c = CHR 0xA0"

definition js_trim :: "string \<Rightarrow> string" where
  "js_trim s = rev (dropWhile js_whitespace (rev (dropWhile js_whitespace s)))"

section \<open>The regular expression built from a variable name\<close>

text \<open>
  \<^verbatim>\<open>new RegExp(`\\{\\{${v.name}\\}\\}`, 'g')\<close> splices the variable name into the pattern
  source unescaped. The embedding covers the names whose characters are ordinary pattern
  characters (each matches itself) or the dot (matches any code unit but a line
  terminator). A name with any other syntax character of the pattern language
  (\<^verbatim>\<open>^ $ \ * + ? ( ) [ ] { } |\<close>) is outside the embedded fragment: \<open>compile_name\<close> is
  \<open>None\<close> there, and so is every function that would have to run such a pattern.
\<close>

datatype atom = Lit char | AnyChar

definition syntax_character :: "char \<Rightarrow> bool" where
  "syntax_character c \<longleftrightarrow> c \<in> set (CHR 0x5C # ''^$.*+?()[]{}|'')"

definition line_terminator :: "char \<Rightarrow> bool" where
  "line_terminator c \<longleftrightarrow> c = CHR 0x0A \<or> c = CHR 0x0D"

definition atom_of :: "char \<Rightarrow> atom option" where
  "atom_of c =
     (if c = CHR ''.'' then Some AnyChar
      else if syntax_character c then None
      else Some (Lit c))"

fun compile_name :: "string \<Rightarrow> atom list option" where
  "compile_name [] = Some []"
| "compile_name (c # cs) =
     (case atom_of c of
        None \<Rightarrow> None
      | Some a \<Rightarrow> (case compile_name cs of None \<Rightarrow> None | Some as \<Rightarrow> Some (a # as)))"

text \<open>The pattern \<^verbatim>\<open>\{\{\<close> name \<^verbatim>\<open>\}\}\<close>: the braces are escaped, so they are literals.\<close>

definition placeholder_regex :: "atom list \<Rightarrow> atom list" where
  "placeholder_regex n = Lit CHR ''{'' # Lit CHR ''{'' # n @ [Lit CHR ''}'', Lit CHR ''}'']"

fun atom_matches :: "atom \<Rightarrow> char \<Rightarrow> bool" where
  "atom_matches (Lit a) c = (a = c)"
| "atom_matches AnyChar c = (\<not> line_terminator c)"

text \<open>Does the pattern match at the start of the text? Every atom takes one code unit.\<close>

fun match_here :: "atom list \<Rightarrow> string \<Rightarrow> bool" where
  "match_here [] s = True"
| "match_here (a # as) [] = False"
| "match_here (a # as) (c # cs) = (atom_matches a c \<and> match_here as cs)"

section \<open>Replacement with a replacement string\<close>

text \<open>
  \<^verbatim>\<open>content.replace(regex, replacement)\<close> with a string replacement expands the replacement
  patterns of the language at each match: \<^verbatim>\<open>$$\<close> is a dollar sign, \<^verbatim>\<open>$&\<close> the matched text,
  \<^verbatim>\<open>$`\<close> the text preceding the match and \<^verbatim>\<open>$'\<close> the text following it. The patterns built here
  have no capture group, so \<^verbatim>\<open>$1\<close> .. \<^verbatim>\<open>$99\<close> and \<^verbatim>\<open>$<\<close> stay as they are, like any
  other character.
\<close>

fun get_substitution :: "string \<Rightarrow> string \<Rightarrow> string \<Rightarrow> string \<Rightarrow> string" where
  "get_substitution matched preceding following [] = []"
| "get_substitution matched preceding following [c] = [c]"
| "get_substitution matched preceding following (c # d # t) =
     (if c = CHR ''$'' \<and> d = CHR ''$'' then CHR ''$'' # get_substitution matched preceding following t
      else if c = CHR ''$'' \<and> d = CHR ''&'' then matched @ get_substitution matched preceding following t
      else if c = CHR ''$'' \<and> d = CHR 0x60 then preceding @ get_substitution matched preceding following t
      else if c = CHR ''$'' \<and> d = CHR 0x27 then following @ get_substitution matched preceding following t
      else c # get_substitution matched preceding following (d # t))"

text \<open>
  The global replace: the text is scanned from the left; at a match the expanded replacement
  is emitted and the scan resumes behind the match, otherwise one code unit is copied.
  \<open>preceding\<close> is the part of the original text already passed. The patterns of
  \<open>placeholder_regex\<close> are never empty; the guard keeps the scan total.
\<close>

function replace_from :: "atom list \<Rightarrow> string \<Rightarrow> string \<Rightarrow> string \<Rightarrow> string" where
  "replace_from p r preceding [] = []"
| "replace_from p r preceding (c # cs) =
     (if p \<noteq> [] \<and> match_here p (c # cs)
      then get_substitution (take (length p) (c # cs)) preceding (drop (length p) (c # cs)) r
             @ replace_from p r (preceding @ take (length p) (c # cs)) (drop (length p) (c # cs))
      else c # replace_from p r (preceding @ [c]) cs)"
  by pat_completeness auto
termination
  by (relation "measure (\<lambda>(p, r, preceding, s). length s)") (auto simp: neq_Nil_conv)

definition replace_all :: "atom list \<Rightarrow> string \<Rightarrow> string \<Rightarrow> string" where
  "replace_all p r s = replace_from p r [] s"

section \<open>Prompt templates and their variables\<close>

record variable =
  name :: string
  description :: "string option"
  default_value :: "string option"

record prompt =
  prompt_id :: string
  prompt_name :: string
  content :: string
  variables :: "variable list option"

text \<open>\<^verbatim>\<open>v.default_value || `[${v.description || v.name}]`\<close>\<close>

definition replacement_text :: "variable \<Rightarrow> string" where
  "replacement_text v =
     js_or (default_value v) (''['' @ js_or (description v) (name v) @ '']'')"

text \<open>One round of the \<^verbatim>\<open>forEach\<close>: the replace for one variable.\<close>

definition substitute_variable :: "variable \<Rightarrow> string \<Rightarrow> string option" where
  "substitute_variable v text =
     (case compile_name (name v) of
        None \<Rightarrow> None
      | Some n \<Rightarrow> Some (replace_all (placeholder_regex n) (replacement_text v) text))"

text \<open>The \<^verbatim>\<open>forEach\<close> over the declared variables, in list order.\<close>

fun resolve_variables :: "variable list \<Rightarrow> string \<Rightarrow> string option" where
  "resolve_variables [] text = Some text"
| "resolve_variables (v # vs) text =
     (case substitute_variable v text of
        None \<Rightarrow> None
      | Some text' \<Rightarrow> resolve_variables vs text')"

text \<open>\<^verbatim>\<open>let content = prompt.content; if (prompt.variables) { ... }\<close>\<close>

definition resolve_prompt :: "prompt \<Rightarrow> string option" where
  "resolve_prompt p =
     (case variables p of
        None \<Rightarrow> Some (content p)
      | Some vs \<Rightarrow> resolve_variables vs (content p))"

text \<open>The text \<^verbatim>\<open>{{name}}\<close> as it stands in a template.\<close>

definition placeholder_text :: "string \<Rightarrow> string" where
  "placeholder_text n = ''{{'' @ n @ ''}}''"

text \<open>A name without any syntax character of the pattern language.\<close>

definition plain_name :: "string \<Rightarrow> bool" where
  "plain_name n = list_all (\<lambda>c. \<not> syntax_character c) n"

text \<open>A name without a brace.\<close>

definition brace_free :: "string \<Rightarrow> bool" where
  "brace_free n = list_all (\<lambda>c. c \<noteq> CHR ''{'' \<and> c \<noteq> CHR ''}'') n"

section \<open>Selecting a prompt template on the Generate page\<close>

text \<open>
  The part of the component state the click handler of a prompt entry reads or writes, and
  the toasts it has shown.
\<close>

datatype toast = ToastSuccess string | ToastError string

record page_state =
  textInput :: string
  selectedPrompt :: "prompt option"
  showPromptSelector :: bool
  toasts :: "toast list"

text \<open>
  The handler: \<^verbatim>\<open>setSelectedPrompt(prompt); setShowPromptSelector(false);
  if (!textInput.trim()) { ...; setTextInput(content) }; toast.success(...)\<close>.
  The result is \<open>None\<close> when a variable name is outside the embedded pattern fragment.
\<close>

definition select_prompt :: "prompt \<Rightarrow> page_state \<Rightarrow> page_state option" where
  "select_prompt p st =
     (let st1 = st\<lparr>selectedPrompt := Some p, showPromptSelector := False\<rparr>;
          loaded = ToastSuccess (''Loaded prompt: '' @ prompt_name p)
      in if js_trim (textInput st) = []
         then (case resolve_prompt p of
                 None \<Rightarrow> None
               | Some c \<Rightarrow> Some (st1\<lparr>textInput := c, toasts := toasts st1 @ [loaded]\<rparr>))
         else Some (st1\<lparr>toasts := toasts st1 @ [loaded]\<rparr>))"

section \<open>Polling a generation job\<close>

text \<open>
  A response body is a JSON object; the fields read here hold strings, so an object is an
  association list from field names to strings, and a missing field reads as
  \<^verbatim>\<open>undefined\<close>. An awaited call either throws or returns.
\<close>

type_synonym json_object = "(string \<times> string) list"

datatype 'a awaited = Throws | Returns 'a

text \<open>What one run of \<^verbatim>\<open>pollResult\<close> does, in order.\<close>

datatype effect =
    GetJobStatus
  | GetResult
  | SetGeneratedContent "string option"
  | SetIsPolling bool
  | SetCurrentJobId "string option"
  | Toast toast
  | SetTimeout nat

text \<open>The \<^verbatim>\<open>catch\<close> block.\<close>

definition on_poll_error :: "effect list" where
  "on_poll_error =
     [SetIsPolling False, SetCurrentJobId None,
      Toast (ToastError ''Failed to get generation status'')]"

text \<open>
  One run of \<^verbatim>\<open>pollResult\<close>, given what \<^verbatim>\<open>getJobStatus\<close> answers and what \<^verbatim>\<open>getResult\<close>
  would answer. \<open>SetTimeout 2000\<close> stands for \<^verbatim>\<open>setTimeout(pollResult, 2000)\<close>.
\<close>

definition pollResult :: "json_object awaited \<Rightarrow> json_object awaited \<Rightarrow> effect list" where
  "pollResult status_reply result_reply =
     GetJobStatus #
     (case status_reply of
        Throws \<Rightarrow> on_poll_error
      | Returns status \<Rightarrow>
          if map_of status ''status'' = Some ''completed'' then
            GetResult #
            (case result_reply of
               Throws \<Rightarrow> on_poll_error
             | Returns result \<Rightarrow>
                 [SetGeneratedContent (map_of result ''content''), SetIsPolling False,
                  Toast (ToastSuccess ''Document generated successfully!'')])
          else if map_of status ''status'' = Some ''failed'' then
            [Toast (ToastError (js_or (map_of status ''error_message'') ''Generation failed'')),
             SetIsPolling False, SetCurrentJobId None]
          else [SetTimeout 2000])"

text \<open>
  The loop: the server's answers to the successive polls are a list, one pair of answers
  per poll. A run that set the timer is followed by the next run; a run that did not ends
  the loop. When the answers seen so far are used up with the timer set, the loop is still
  waiting for its next run. Each round is kept with the answers it saw.
\<close>

type_synonym server_reply = "json_object awaited \<times> json_object awaited"

fun poll_rounds :: "server_reply list \<Rightarrow> (server_reply \<times> effect list) list" where
  "poll_rounds [] = []"
| "poll_rounds (r # rs) =
     (let es = pollResult (fst r) (snd r)
      in if SetTimeout 2000 \<in> set es then (r, es) # poll_rounds rs else [(r, es)])"

definition poll_loop :: "server_reply list \<Rightarrow> effect list" where
  "poll_loop rs = concat (map snd (poll_rounds rs))"

text \<open>The status a reply shows, if the call returned and the field is there.\<close>

definition observed_status :: "json_object awaited \<Rightarrow> string option" where
  "observed_status reply = (case reply of Throws \<Rightarrow> None | Returns status \<Rightarrow> map_of status ''status'')"

definition terminal :: "string \<Rightarrow> bool" where
  "terminal s \<longleftrightarrow> s = ''completed'' \<or> s = ''failed''"

text \<open>
  A reply after which \<^verbatim>\<open>pollResult\<close> takes its last branch: the call returned and the
  status read is neither \<^verbatim>\<open>'completed'\<close> nor \<^verbatim>\<open>'failed'\<close> (a missing status included).
\<close>

definition keeps_polling :: "json_object awaited \<Rightarrow> bool" where
  "keeps_polling reply =
     (case reply of
        Throws \<Rightarrow> False
      | Returns status \<Rightarrow>
          map_of status ''status'' \<noteq> Some ''completed'' \<and>
          map_of status ''status'' \<noteq> Some ''failed'')"

section \<open>Downloading an exported document\<close>

record http_response =
  ok :: bool
  status_code :: nat
  content_disposition :: "string option"
  body :: string

datatype js_error = Error string

text \<open>
  \<^verbatim>\<open>contentDisposition.match(/filename="(.+)"/)\<close>. \<open>greedy_capture\<close> matches \<^verbatim>\<open>(.+)"\<close> at the
  start of a text: the dot takes no line terminator, the group takes as much as it can and
  gives back until a double quote follows. \<open>filename_key\<close> is the literal head
  \<^verbatim>\<open>filename="\<close> of the pattern; \<open>match_filename\<close> tries the start positions from the left
  and yields the group of the first match.
\<close>

fun greedy_capture :: "string \<Rightarrow> string option" where
  "greedy_capture [] = None"
| "greedy_capture (c # cs) =
     (if line_terminator c then None
      else case greedy_capture cs of
             Some u \<Rightarrow> Some (c # u)
           | None \<Rightarrow> (case cs of [] \<Rightarrow> None | d # ds \<Rightarrow> if d = CHR 0x22 then Some [c] else None))"

definition filename_key :: string where
  "filename_key = ''filename=\"''"

fun match_filename :: "string \<Rightarrow> string option" where
  "match_filename [] = None"
| "match_filename (c # cs) =
     (if prefix filename_key (c # cs)
      then (case greedy_capture (drop (length filename_key) (c # cs)) of
              Some u \<Rightarrow> Some u
            | None \<Rightarrow> match_filename cs)
      else match_filename cs)"

text \<open>
  \<^verbatim>\<open>generateApi.download(jobId, format)\<close>, given the response \<^verbatim>\<open>fetch\<close> returned: the error
  thrown, or the blob and the file name.
\<close>

definition download :: "string \<Rightarrow> string \<Rightarrow> http_response \<Rightarrow> js_error + string \<times> string" where
  "download jobId format response =
     (if \<not> ok response then Inl (Error ''Download failed'')
      else Inr (body response,
        (case content_disposition response of
           None \<Rightarrow> ''document.'' @ format
         | Some cd \<Rightarrow>
             if cd = [] then ''document.'' @ format
             else (case match_filename cd of
                     None \<Rightarrow> ''document.'' @ format
                   | Some f \<Rightarrow> f))))"

text \<open>
  \<^verbatim>\<open>handleDownload(format)\<close> of the page repeats the request and the file name logic of
  \<^verbatim>\<open>generateApi.download\<close> line by line; what the user gets is a saved file and a toast.
  \<open>NotifyDownloaded format\<close> is the toast \<^verbatim>\<open>`Downloaded as ${format.toUpperCase()}`\<close>.
\<close>

datatype download_effect =
    SetIsDownloading bool
  | SetShowFormatDropdown bool
  | SaveFile string string
  | ConsoleError string
  | Notify toast
  | NotifyDownloaded string

definition handleDownload :: "string option \<Rightarrow> string \<Rightarrow> http_response \<Rightarrow> download_effect list" where
  "handleDownload currentJobId format response =
     (case currentJobId of
        None \<Rightarrow> [Notify (ToastError ''No document to download'')]
      | Some jobId \<Rightarrow>
          (if jobId = [] then [Notify (ToastError ''No document to download'')]
           else [SetIsDownloading True, SetShowFormatDropdown False] @
             (case download jobId format response of
                Inl (Error m) \<Rightarrow>
                  [ConsoleError m, Notify (ToastError ''Failed to download document'')]
              | Inr (blob, filename) \<Rightarrow>
                  [SaveFile filename blob, NotifyDownloaded format]) @
             [SetIsDownloading False]))"

section \<open>The polling loop\<close>

lemma pollResult_keeps_polling:
  "keeps_polling st \<Longrightarrow> pollResult st res = [GetJobStatus, SetTimeout 2000]"
  by (cases st) (simp_all add: keeps_polling_def pollResult_def)

lemma pollResult_timer_iff:
  "SetTimeout n \<in> set (pollResult st res) \<longleftrightarrow> keeps_polling st \<and> n = 2000"
  by (cases st; cases res) (auto simp: keeps_polling_def pollResult_def on_poll_error_def)

lemma poll_rounds_stop:
  "\<not> keeps_polling (fst r) \<Longrightarrow> poll_rounds (r # rest) = [(r, pollResult (fst r) (snd r))]"
  by (simp add: pollResult_timer_iff Let_def)

lemma poll_rounds_continue:
  "keeps_polling (fst r) \<Longrightarrow>
   poll_rounds (r # rest) = (r, [GetJobStatus, SetTimeout 2000]) # poll_rounds rest"
  by (simp add: pollResult_timer_iff Let_def pollResult_keeps_polling)

lemma poll_loop_stop:
  "\<not> keeps_polling st \<Longrightarrow> poll_loop ((st, res) # rest) = pollResult st res"
  using poll_rounds_stop [of "(st, res)" rest] by (simp add: poll_loop_def)

lemma poll_loop_continue:
  "list_all (\<lambda>r. keeps_polling (fst r)) rs \<Longrightarrow>
   poll_loop (rs @ rest) =
     concat (replicate (length rs) [GetJobStatus, SetTimeout 2000]) @ poll_loop rest"
proof (induction rs)
  case Nil
  then show ?case by simp
next
  case (Cons r rs)
  then have k: "keeps_polling (fst r)" and ks: "list_all (\<lambda>r. keeps_polling (fst r)) rs"
    by simp_all
  have "poll_loop ((r # rs) @ rest) = [GetJobStatus, SetTimeout 2000] @ poll_loop (rs @ rest)"
    using poll_rounds_continue [OF k, of "rs @ rest"] by (simp add: poll_loop_def)
  with Cons.IH [OF ks] show ?case by simp
qed

lemma poll_rounds_effects:
  "(r, es) \<in> set (poll_rounds rs) \<Longrightarrow> es = pollResult (fst r) (snd r)"
  by (induction rs) (auto simp: Let_def split: if_splits)

lemma getResult_iff:
  "GetResult \<in> set (pollResult st res) \<longleftrightarrow> observed_status st = Some ''completed''"
  by (cases st; cases res) (auto simp: observed_status_def pollResult_def on_poll_error_def)

lemma terminal_stops: "observed_status st = Some s \<Longrightarrow> terminal s \<Longrightarrow> \<not> keeps_polling st"
  by (cases st) (auto simp: observed_status_def terminal_def keeps_polling_def)

lemma keeps_polling_iff:
  "keeps_polling st \<longleftrightarrow>
     (\<exists>status. st = Returns status) \<and> (\<forall>s. observed_status st = Some s \<longrightarrow> \<not> terminal s)"
  by (cases st) (auto simp: observed_status_def terminal_def keeps_polling_def)

text \<open>
  C2, as the code has it. When the status observed by a poll is \<^verbatim>\<open>completed\<close> or
  \<^verbatim>\<open>failed\<close>, that run sets no timer and the loop ends with it, whatever the server would
  answer later. For every other observed status (\<open>keeps_polling\<close>: the call returned, and
  what it shows is not a terminal status) the run does nothing but set one timer of
  2000 ms for the next run; so after any number of polls that all observed a non-terminal
  status the loop has polled that many times and goes on with the next answer. A timer is
  set in no other case: a run whose call throws ends the loop as well, with the
  \<^verbatim>\<open>catch\<close> block, whatever state the job is in.
\<close>

theorem poll_backoff:
  "(observed_status st = Some s \<and> terminal s \<longrightarrow>
      (\<forall>n. SetTimeout n \<notin> set (pollResult st res)) \<and>
      poll_loop ((st, res) # rest) = pollResult st res)
   \<and> (keeps_polling st \<longrightarrow> pollResult st res = [GetJobStatus, SetTimeout 2000])
   \<and> (list_all (\<lambda>r. keeps_polling (fst r)) rs \<longrightarrow>
        poll_loop (rs @ rest) =
          concat (replicate (length rs) [GetJobStatus, SetTimeout 2000]) @ poll_loop rest)
   \<and> (keeps_polling st \<longleftrightarrow>
        (\<exists>status. st = Returns status) \<and>
        (\<forall>s. observed_status st = Some s \<longrightarrow> \<not> terminal s))
   \<and> (SetTimeout n \<in> set (pollResult st res) \<longleftrightarrow> keeps_polling st \<and> n = 2000)
   \<and> (list_all (\<lambda>r. keeps_polling (fst r)) rs \<and> \<not> keeps_polling st \<longrightarrow>
        poll_loop (rs @ (st, res) # rest) =
          concat (replicate (length rs) [GetJobStatus, SetTimeout 2000]) @ pollResult st res)
   \<and> pollResult Throws res =
        [GetJobStatus, SetIsPolling False, SetCurrentJobId None,
         Toast (ToastError ''Failed to get generation status'')]"
proof (intro conjI impI)
  assume "observed_status st = Some s \<and> terminal s"
  then have nk: "\<not> keeps_polling st"
    using terminal_stops by blast
  then show "\<forall>n. SetTimeout n \<notin> set (pollResult st res)"
    by (simp add: pollResult_timer_iff)
  from nk show "poll_loop ((st, res) # rest) = pollResult st res"
    by (rule poll_loop_stop)
next
  assume "keeps_polling st"
  then show "pollResult st res = [GetJobStatus, SetTimeout 2000]"
    by (rule pollResult_keeps_polling)
next
  assume "list_all (\<lambda>r. keeps_polling (fst r)) rs"
  then show "poll_loop (rs @ rest) =
          concat (replicate (length rs) [GetJobStatus, SetTimeout 2000]) @ poll_loop rest"
    by (rule poll_loop_continue)
next
  show "keeps_polling st \<longleftrightarrow>
        (\<exists>status. st = Returns status) \<and>
        (\<forall>s. observed_status st = Some s \<longrightarrow> \<not> terminal s)"
    by (rule keeps_polling_iff)
next
  show "SetTimeout n \<in> set (pollResult st res) \<longleftrightarrow> keeps_polling st \<and> n = 2000"
    by (rule pollResult_timer_iff)
next
  assume a: "list_all (\<lambda>r. keeps_polling (fst r)) rs \<and> \<not> keeps_polling st"
  then have "poll_loop (rs @ (st, res) # rest) =
      concat (replicate (length rs) [GetJobStatus, SetTimeout 2000])
        @ poll_loop ((st, res) # rest)"
    using poll_loop_continue [of rs "(st, res) # rest"] by blast
  with a show "poll_loop (rs @ (st, res) # rest) =
      concat (replicate (length rs) [GetJobStatus, SetTimeout 2000]) @ pollResult st res"
    by (simp add: poll_loop_stop)
next
  show "pollResult Throws res =
        [GetJobStatus, SetIsPolling False, SetCurrentJobId None,
         Toast (ToastError ''Failed to get generation status'')]"
    by (simp add: pollResult_def on_poll_error_def)
qed

text \<open>
  Two polls that see \<^verbatim>\<open>pending\<close> and \<^verbatim>\<open>processing\<close> each set the timer; a poll that sees
  \<^verbatim>\<open>failed\<close> sets none and the answer after it is never asked for; and after a poll that
  saw \<^verbatim>\<open>pending\<close>, a poll that throws is the last one.
\<close>

theorem poll_backoff_witness:
  "poll_loop ([(Returns [(''status'', ''pending'')], Throws),
               (Returns [(''status'', ''processing'')], Throws)] @ []) =
     [GetJobStatus, SetTimeout 2000, GetJobStatus, SetTimeout 2000]
   \<and> (\<forall>n. SetTimeout n \<notin> set (pollResult (Returns [(''status'', ''failed'')]) Throws))
   \<and> poll_loop [(Returns [(''status'', ''failed'')], Throws),
                (Returns [(''status'', ''pending'')], Throws)] =
       pollResult (Returns [(''status'', ''failed'')]) Throws
   \<and> poll_loop ([(Returns [(''status'', ''pending'')], Throws)] @
         (Throws, Throws) # [(Returns [(''status'', ''completed'')], Throws)]) =
       [GetJobStatus, SetTimeout 2000] @ pollResult Throws Throws"
proof -
  have t: "observed_status (Returns [(''status'', ''failed'')]) = Some ''failed''
      \<and> terminal ''failed''"
    by (simp add: observed_status_def terminal_def)
  have k: "list_all (\<lambda>r. keeps_polling (fst r))
      [(Returns [(''status'', ''pending'')], Throws),
       (Returns [(''status'', ''processing'')], Throws)]"
    by (simp add: keeps_polling_def)
  have e: "list_all (\<lambda>r. keeps_polling (fst r)) [(Returns [(''status'', ''pending'')], Throws)]
      \<and> \<not> keeps_polling Throws"
    by (simp add: keeps_polling_def)
  note a = poll_backoff [where st = "Returns [(''status'', ''failed'')]" and s = "''failed''"
      and res = Throws and rest = "[(Returns [(''status'', ''pending'')], Throws)]"
      and rs = "[]" and n = 0, THEN conjunct1, THEN mp, OF t]
  note b = poll_backoff [where rs = "[(Returns [(''status'', ''pending'')], Throws),
               (Returns [(''status'', ''processing'')], Throws)]" and rest = "[]"
      and st = Throws and s = "[]" and res = Throws and n = 0,
      THEN conjunct2, THEN conjunct2, THEN conjunct1, THEN mp, OF k]
  note c = poll_backoff [where rs = "[(Returns [(''status'', ''pending'')], Throws)]"
      and rest = "[(Returns [(''status'', ''completed'')], Throws)]"
      and st = Throws and s = "[]" and res = Throws and n = 0,
      THEN conjunct2, THEN conjunct2, THEN conjunct2, THEN conjunct2, THEN conjunct2,
      THEN conjunct1, THEN mp, OF e]
  from b have "poll_loop ([(Returns [(''status'', ''pending'')], Throws),
               (Returns [(''status'', ''processing'')], Throws)] @ []) =
     [GetJobStatus, SetTimeout 2000, GetJobStatus, SetTimeout 2000]"
    by (simp add: poll_loop_def)
  moreover from c have "poll_loop ([(Returns [(''status'', ''pending'')], Throws)] @
         (Throws, Throws) # [(Returns [(''status'', ''completed'')], Throws)]) =
       [GetJobStatus, SetTimeout 2000] @ pollResult Throws Throws"
    by simp
  ultimately show ?thesis using a by simp
qed

text \<open>
  C2 as stated fails in its last clause: the loop does stop while the job is not in a
  terminal state. The first poll sees \<^verbatim>\<open>processing\<close>, the status call of the second one
  throws, and the loop ends there with the \<^verbatim>\<open>catch\<close> block; the third answer, which would
  have shown the job still \<^verbatim>\<open>processing\<close>, is never asked for.
\<close>

theorem poll_stops_while_processing:
  "poll_loop [(Returns [(''status'', ''processing'')], Throws),
              (Throws, Throws),
              (Returns [(''status'', ''processing'')], Throws)] =
     [GetJobStatus, SetTimeout 2000,
      GetJobStatus, SetIsPolling False, SetCurrentJobId None,
      Toast (ToastError ''Failed to get generation status'')]"
  by (simp add: poll_loop_def pollResult_def on_poll_error_def Let_def)

text \<open>
  C7. In every round of the polling loop, \<^verbatim>\<open>getResult\<close> is called only if the status that
  round has just observed is \<^verbatim>\<open>completed\<close>.
\<close>

theorem getResult_only_when_completed:
  assumes "(r, es) \<in> set (poll_rounds rs)" and "GetResult \<in> set es"
  shows "observed_status (fst r) = Some ''completed''"
  using assms poll_rounds_effects [of r es rs] by (simp add: getResult_iff)

theorem getResult_only_when_completed_witness:
  "observed_status
     (fst (Returns [(''status'', ''completed'')], Returns [(''content'', ''# SRS'')]))
   = Some ''completed''"
  using getResult_only_when_completed
    [where r = "(Returns [(''status'', ''completed'')], Returns [(''content'', ''# SRS'')])"
       and es = "[GetJobStatus, GetResult, SetGeneratedContent (Some ''# SRS''),
                  SetIsPolling False, Toast (ToastSuccess ''Document generated successfully!'')]"
       and rs = "[(Returns [(''status'', ''pending'')], Throws),
                  (Returns [(''status'', ''completed'')], Returns [(''content'', ''# SRS'')])]"]
  by (simp add: pollResult_def Let_def)



lemma js_or_nonempty: "b \<noteq> [] \<Longrightarrow> js_or a b \<noteq> []"
  by (simp add: js_or_def split: option.splits)

text \<open>
  C4, as the code has it. When the observed status is \<^verbatim>\<open>failed\<close>, the message shown is read
  from the field \<^verbatim>\<open>error_message\<close> of the response; when that field is missing or empty
  the fixed text \<^verbatim>\<open>Generation failed\<close> is shown, so the message shown is never empty. A
  field named \<^verbatim>\<open>error\<close> is not read: adding one changes nothing.
\<close>

theorem failed_status_message:
  assumes "map_of status ''status'' = Some ''failed''"
  shows "\<exists>msg. pollResult (Returns status) res =
            [GetJobStatus, Toast (ToastError msg), SetIsPolling False, SetCurrentJobId None]
          \<and> msg \<noteq> []
          \<and> msg = (case map_of status ''error_message'' of
                     None \<Rightarrow> ''Generation failed''
                   | Some m \<Rightarrow> if m = [] then ''Generation failed'' else m)
          \<and> pollResult (Returns ((''error'', e) # status)) res = pollResult (Returns status) res"
proof -
  let ?msg = "js_or (map_of status ''error_message'') ''Generation failed''"
  from assms have "pollResult (Returns status) res =
      [GetJobStatus, Toast (ToastError ?msg), SetIsPolling False, SetCurrentJobId None]"
    by (simp add: pollResult_def)
  moreover have "?msg \<noteq> []"
    by (rule js_or_nonempty) simp
  moreover have "?msg = (case map_of status ''error_message'' of
                     None \<Rightarrow> ''Generation failed''
                   | Some m \<Rightarrow> if m = [] then ''Generation failed'' else m)"
    by (simp add: js_or_def)
  moreover have "pollResult (Returns ((''error'', e) # status)) res =
      pollResult (Returns status) res"
    by (simp add: pollResult_def)
  ultimately show ?thesis by blast
qed

theorem failed_status_message_witness:
  "\<exists>msg. pollResult (Returns [(''status'', ''failed''), (''error_message'', ''LLM timeout'')]) Throws =
            [GetJobStatus, Toast (ToastError msg), SetIsPolling False, SetCurrentJobId None]
          \<and> msg = ''LLM timeout''"
  using failed_status_message
    [where status = "[(''status'', ''failed''), (''error_message'', ''LLM timeout'')]"
       and res = Throws and e = "''x''"]
  by simp

text \<open>
  C4 as stated fails: a failed job whose cause is in the field \<^verbatim>\<open>error\<close> is reported with
  the fixed text, not with its cause.
\<close>

theorem error_field_ignored:
  "pollResult (Returns [(''status'', ''failed''), (''error'', ''quota exceeded'')]) Throws =
     [GetJobStatus, Toast (ToastError ''Generation failed''), SetIsPolling False,
      SetCurrentJobId None]"
  by (simp add: pollResult_def js_or_def)

section \<open>Downloads\<close>

text \<open>
  C3, as the code has it. Whatever makes the response fail, \<^verbatim>\<open>download\<close> throws the one
  error \<^verbatim>\<open>Download failed\<close>, and the page shows the one toast
  \<^verbatim>\<open>Failed to download document\<close>: the status code and the body of the response are not
  looked at.
\<close>

theorem download_error_uniform:
  assumes "\<not> ok response"
  shows "download jobId format response = Inl (Error ''Download failed'')
       \<and> (jobId \<noteq> [] \<longrightarrow> handleDownload (Some jobId) format response =
            [SetIsDownloading True, SetShowFormatDropdown False, ConsoleError ''Download failed'',
             Notify (ToastError ''Failed to download document''), SetIsDownloading False])"
  using assms by (simp add: download_def handleDownload_def)

theorem download_error_uniform_witness:
  "download ''job-1'' ''exe''
     \<lparr>ok = False, status_code = 400, content_disposition = None,
      body = ''unsupported format''\<rparr> = Inl (Error ''Download failed'')"
  using download_error_uniform
    [where response = "\<lparr>ok = False, status_code = 400, content_disposition = None,
        body = ''unsupported format''\<rparr>" and jobId = "''job-1''" and format = "''exe''"]
  by simp

text \<open>
  C3 as stated fails: a download refused because the job is still running, one refused
  because the job has failed and one refused for an unknown format give the caller the
  same error.
\<close>

theorem download_errors_indistinguishable:
  "download ''job-1'' ''pdf''
     \<lparr>ok = False, status_code = 409, content_disposition = None,
      body = ''job is still processing''\<rparr>
   = download ''job-1'' ''pdf''
     \<lparr>ok = False, status_code = 500, content_disposition = None, body = ''job failed''\<rparr>
 \<and> download ''job-1'' ''pdf''
     \<lparr>ok = False, status_code = 409, content_disposition = None,
      body = ''job is still processing''\<rparr>
   = download ''job-1'' ''exe''
     \<lparr>ok = False, status_code = 400, content_disposition = None,
      body = ''unsupported format''\<rparr>"
  by (simp add: download_def)

lemma greedy_capture_no_quote: "CHR 0x22 \<notin> set s \<Longrightarrow> greedy_capture s = None"
  by (induction s) (auto split: list.splits)

text \<open>The group runs up to the last double quote.\<close>

lemma greedy_capture_last_quote:
  assumes "u \<noteq> []" and "\<forall>c\<in>set u. \<not> line_terminator c" and "CHR 0x22 \<notin> set rest"
  shows "greedy_capture (u @ CHR 0x22 # rest) = Some u"
  using assms
proof (induction u)
  case Nil
  then show ?case by simp
next
  case (Cons c u)
  show ?case
  proof (cases "u = []")
    case True
    have "greedy_capture (CHR 0x22 # rest) = None"
      using greedy_capture_no_quote [OF Cons.prems(3)]
      by (cases rest) (use Cons.prems(3) in \<open>auto simp: line_terminator_def\<close>)
    with True Cons.prems show ?thesis by simp
  next
    case False
    with Cons have "greedy_capture (u @ CHR 0x22 # rest) = Some u" by simp
    with Cons.prems show ?thesis by simp
  qed
qed

lemma filename_key_length: "length filename_key = 10"
  by (simp add: filename_key_def)

lemma filename_key_nth: "0 < m \<Longrightarrow> m < 10 \<Longrightarrow> filename_key ! m \<noteq> filename_key ! 0"
proof -
  assume "0 < m" "m < 10"
  then have "m \<in> {1,2,3,4,5,6,7,8,9}" by auto
  then show ?thesis by (auto simp: filename_key_def)
qed

text \<open>No match of the key can start before a later occurrence of the key and reach into it.\<close>

lemma no_early_start:
  assumes "pre \<noteq> []" and "\<not> sublist filename_key pre"
  shows "\<not> prefix filename_key (pre @ filename_key @ t)"
proof
  assume p: "prefix filename_key (pre @ filename_key @ t)"
  then obtain zs where e: "pre @ filename_key @ t = filename_key @ zs"
    by (auto simp: prefix_def)
  show False
  proof (cases "length pre < 10")
    case True
    from assms(1) have pos: "0 < length pre" by simp
    have "filename_key ! length pre = (filename_key @ zs) ! length pre"
      using True by (simp add: nth_append filename_key_length)
    also have "\<dots> = (pre @ filename_key @ t) ! length pre"
      by (simp only: e)
    also have "\<dots> = (filename_key @ t) ! 0"
      by (simp add: nth_append)
    also have "\<dots> = filename_key ! 0"
      by (simp add: nth_append filename_key_length)
    finally show False using filename_key_nth [OF pos True] by simp
  next
    case False
    have "take (length filename_key) (pre @ filename_key @ t) =
        take (length filename_key) (filename_key @ zs)"
      by (simp only: e)
    then have "take (length filename_key) (pre @ filename_key @ t) = filename_key"
      by simp
    with False have "take 10 pre = filename_key" by (simp add: filename_key_length)
    then have "prefix filename_key pre" by (metis take_is_prefix)
    then have "sublist filename_key pre" by (rule prefix_imp_sublist)
    with assms(2) show False by simp
  qed
qed

lemma match_filename_skip:
  "\<not> sublist filename_key pre \<Longrightarrow>
   match_filename (pre @ filename_key @ t) = match_filename (filename_key @ t)"
proof (induction pre)
  case Nil
  then show ?case by simp
next
  case (Cons c pre)
  from Cons.prems have q: "\<not> sublist filename_key pre"
    by (auto simp: sublist_Cons_right)
  have "\<not> prefix filename_key ((c # pre) @ filename_key @ t)"
    using no_early_start [of "c # pre" t] Cons.prems by simp
  then have "match_filename ((c # pre) @ filename_key @ t) =
      match_filename (pre @ filename_key @ t)"
    by simp
  with Cons.IH [OF q] show ?case by simp
qed

lemma match_filename_no_key: "\<not> sublist filename_key s \<Longrightarrow> match_filename s = None"
proof (induction s)
  case Nil
  then show ?case by simp
next
  case (Cons c cs)
  from Cons.prems have "\<not> prefix filename_key (c # cs)" and "\<not> sublist filename_key cs"
    by (auto simp: sublist_Cons_right)
  with Cons.IH show ?case by simp
qed

lemma match_filename_at_key:
  assumes "greedy_capture t = Some u"
  shows "match_filename (filename_key @ t) = Some u"
proof -
  obtain c cs where k: "filename_key = c # cs"
    using filename_key_length by (cases filename_key) auto
  have e: "c # (cs @ t) = filename_key @ t"
    using k by simp
  have "match_filename (c # (cs @ t)) =
      (if prefix filename_key (c # (cs @ t))
       then (case greedy_capture (drop (length filename_key) (c # (cs @ t))) of
               Some u \<Rightarrow> Some u
             | None \<Rightarrow> match_filename (cs @ t))
       else match_filename (cs @ t))"
    by (rule match_filename.simps(2))
  also have "\<dots> = Some u"
    unfolding e using assms by simp
  finally show ?thesis
    by (simp only: e)
qed

lemma match_filename_first_key:
  assumes "\<not> sublist filename_key pre" and "u \<noteq> []"
    and "\<forall>c\<in>set u. \<not> line_terminator c" and "CHR 0x22 \<notin> set rest"
  shows "match_filename (pre @ filename_key @ u @ CHR 0x22 # rest) = Some u"
proof -
  have "match_filename (pre @ filename_key @ u @ CHR 0x22 # rest)
      = match_filename (filename_key @ u @ CHR 0x22 # rest)"
    using match_filename_skip [OF assms(1)] by simp
  also have "\<dots> = Some u"
    using greedy_capture_last_quote [OF assms(2-4)] by (rule match_filename_at_key)
  finally show ?thesis .
qed

text \<open>
  What the file name is, for a response that is ok. Without a content-disposition header,
  or with one in which \<^verbatim>\<open>filename="\<close> does not occur, it is \<^verbatim>\<open>document.\<close> followed by the
  requested format. With a header in which \<^verbatim>\<open>filename="\<close> occurs, it is the text between
  the first \<^verbatim>\<open>filename="\<close> and the last double quote of the header. When the quote that
  closes the file name is the last one of the header, this is the file name \<open>v\<close> the
  header gives.
\<close>

lemma download_filename:
  assumes "ok response"
  shows "((content_disposition response = None \<or>
           (\<exists>cd. content_disposition response = Some cd \<and> \<not> sublist filename_key cd)) \<longrightarrow>
            download jobId format response = Inr (body response, ''document.'' @ format))
       \<and> (content_disposition response = Some (pre @ filename_key @ u @ CHR 0x22 # rest)
            \<and> \<not> sublist filename_key pre \<and> u \<noteq> []
            \<and> (\<forall>c\<in>set u. \<not> line_terminator c) \<and> CHR 0x22 \<notin> set rest \<longrightarrow>
            download jobId format response = Inr (body response, u))"
proof (intro conjI impI)
  assume "content_disposition response = None \<or>
           (\<exists>cd. content_disposition response = Some cd \<and> \<not> sublist filename_key cd)"
  then show "download jobId format response = Inr (body response, ''document.'' @ format)"
    using assms by (auto simp: download_def match_filename_no_key)
next
  assume a: "content_disposition response = Some (pre @ filename_key @ u @ CHR 0x22 # rest)
            \<and> \<not> sublist filename_key pre \<and> u \<noteq> []
            \<and> (\<forall>c\<in>set u. \<not> line_terminator c) \<and> CHR 0x22 \<notin> set rest"
  then have "match_filename (pre @ filename_key @ u @ CHR 0x22 # rest) = Some u"
    using match_filename_first_key [of pre u rest] by blast
  with a assms show "download jobId format response = Inr (body response, u)"
    by (simp add: download_def)
qed

lemma download_filename_examples:
  "download ''job-1'' ''pdf''
     \<lparr>ok = True, status_code = 200, content_disposition = None, body = ''data''\<rparr>
     = Inr (''data'', ''document.pdf'')
 \<and> download ''job-1'' ''md''
     \<lparr>ok = True, status_code = 200, content_disposition = Some ''attachment'',
      body = ''data''\<rparr>
     = Inr (''data'', ''document.md'')
 \<and> download ''job-1'' ''pdf''
     \<lparr>ok = True, status_code = 200,
      content_disposition = Some ''attachment; name=\"x\"; filename=\"srs.pdf\"'',
      body = ''data''\<rparr>
     = Inr (''data'', ''srs.pdf'')"
  by (simp add: download_def line_terminator_def filename_key_def)

text \<open>
  C8 at a header with a second quoted parameter: the group \<^verbatim>\<open>(.+)\<close> is greedy and runs on
  to the last double quote of the header, so the file name returned is neither the file
  name the header gives, \<^verbatim>\<open>srs.pdf\<close>, nor a name with the extension of the requested format.
\<close>

theorem download_filename_greedy:
  "download ''job-1'' ''pdf''
     \<lparr>ok = True, status_code = 200,
      content_disposition =
        Some ''attachment; filename=\"srs.pdf\"; modification-date=\"Wed, 12 Feb 1997\"'',
      body = ''data''\<rparr>
   = Inr (''data'', ''srs.pdf\"; modification-date=\"Wed, 12 Feb 1997'')"
  by (simp add: download_def line_terminator_def filename_key_def)

section \<open>Selecting a prompt\<close>

lemma js_trim_empty_iff: "js_trim s = [] \<longleftrightarrow> list_all js_whitespace s"
proof -
  have "js_trim s = [] \<longleftrightarrow> (\<forall>x\<in>set (dropWhile js_whitespace s). js_whitespace x)"
    by (simp add: js_trim_def dropWhile_eq_Nil_conv)
  also have "\<dots> \<longleftrightarrow> dropWhile js_whitespace s = []"
  proof
    assume a: "\<forall>x\<in>set (dropWhile js_whitespace s). js_whitespace x"
    show "dropWhile js_whitespace s = []"
    proof (rule ccontr)
      assume n: "dropWhile js_whitespace s \<noteq> []"
      then have "\<not> js_whitespace (hd (dropWhile js_whitespace s))"
        by (rule hd_dropWhile)
      moreover from n have "hd (dropWhile js_whitespace s) \<in> set (dropWhile js_whitespace s)"
        by simp
      ultimately show False using a by blast
    qed
  qed (auto dest: set_dropWhileD)
  also have "\<dots> \<longleftrightarrow> list_all js_whitespace s"
    by (simp add: dropWhile_eq_Nil_conv list_all_iff)
  finally show ?thesis .
qed

text \<open>
  C9. When the requirements text holds a character that is not white space, selecting a
  prompt leaves the text as it is, while the selected prompt is set and the selector is
  closed. When the text is empty or all white space, the text becomes the resolved content
  of the prompt, with the same two updates.
\<close>

theorem select_prompt_keeps_text:
  "(\<not> list_all js_whitespace (textInput st) \<longrightarrow>
      (\<exists>st'. select_prompt p st = Some st' \<and> textInput st' = textInput st
            \<and> selectedPrompt st' = Some p \<and> showPromptSelector st' = False))
 \<and> (list_all js_whitespace (textInput st) \<and> resolve_prompt p = Some c \<longrightarrow>
      (\<exists>st'. select_prompt p st = Some st' \<and> textInput st' = c
            \<and> selectedPrompt st' = Some p \<and> showPromptSelector st' = False))"
  by (simp add: select_prompt_def js_trim_empty_iff Let_def)

theorem select_prompt_keeps_text_witness:
  "(\<exists>st'. select_prompt
        \<lparr>prompt_id = ''7'', prompt_name = ''SRS'', content = ''Write an SRS for {{product}}'',
         variables = Some [\<lparr>name = ''product'', description = Some ''product name'',
                            default_value = None\<rparr>]\<rparr>
        \<lparr>textInput = ''my notes'', selectedPrompt = None, showPromptSelector = True,
         toasts = []\<rparr> = Some st'
      \<and> textInput st' = ''my notes'' \<and> showPromptSelector st' = False)
 \<and> (\<exists>st'. select_prompt
        \<lparr>prompt_id = ''7'', prompt_name = ''SRS'', content = ''Write an SRS for {{product}}'',
         variables = Some [\<lparr>name = ''product'', description = Some ''product name'',
                            default_value = None\<rparr>]\<rparr>
        \<lparr>textInput = ''  '', selectedPrompt = None, showPromptSelector = True,
         toasts = []\<rparr> = Some st'
      \<and> textInput st' = ''Write an SRS for [product name]'' \<and> showPromptSelector st' = False)"
proof -
  let ?p = "\<lparr>prompt_id = ''7'', prompt_name = ''SRS'', content = ''Write an SRS for {{product}}'',
         variables = Some [\<lparr>name = ''product'', description = Some ''product name'',
                            default_value = None\<rparr>]\<rparr>"
  let ?typed = "\<lparr>textInput = ''my notes'', selectedPrompt = None, showPromptSelector = True,
         toasts = []\<rparr>"
  let ?blank = "\<lparr>textInput = ''  '', selectedPrompt = None, showPromptSelector = True,
         toasts = []\<rparr>"
  have h1: "\<not> list_all js_whitespace (textInput ?typed)"
    by (simp add: js_whitespace_def)
  have h2: "list_all js_whitespace (textInput ?blank)
      \<and> resolve_prompt ?p = Some ''Write an SRS for [product name]''"
    by (simp add: js_whitespace_def resolve_prompt_def substitute_variable_def replace_all_def
        placeholder_regex_def replacement_text_def js_or_def atom_of_def syntax_character_def)
  note a = select_prompt_keeps_text [where st = ?typed and p = ?p and c = "[]",
      THEN conjunct1, THEN mp, OF h1]
  note b = select_prompt_keeps_text [where st = ?blank and p = ?p
      and c = "''Write an SRS for [product name]''", THEN conjunct2, THEN mp, OF h2]
  from a b show ?thesis by auto
qed

section \<open>Resolving the variables of a prompt\<close>

lemma compile_plain_name: "plain_name n \<Longrightarrow> compile_name n = Some (map Lit n)"
  by (induction n) (auto simp: plain_name_def atom_of_def syntax_character_def)

lemma match_here_literal: "match_here (map Lit w) s \<longleftrightarrow> prefix w s"
  by (induction "map Lit w" s arbitrary: w rule: match_here.induct) auto

lemma placeholder_regex_literal:
  "placeholder_regex (map Lit n) = map Lit (placeholder_text n)"
  by (simp add: placeholder_regex_def placeholder_text_def)

text \<open>A text without an occurrence of a literal pattern passes the replace unchanged.\<close>

lemma replace_from_no_occurrence:
  "\<not> sublist w s \<Longrightarrow> replace_from (map Lit w) r pre s = s"
proof (induction s arbitrary: pre)
  case Nil
  then show ?case by simp
next
  case (Cons c cs)
  from Cons.prems have np: "\<not> prefix w (c # cs)" and ns: "\<not> sublist w cs"
    by (auto simp: sublist_Cons_right)
  from np have "\<not> match_here (map Lit w) (c # cs)"
    by (simp only: match_here_literal not_False_eq_True)
  with Cons.IH [OF ns] show ?case by simp
qed

lemma substitute_variable_no_occurrence:
  assumes "plain_name (name v)" and "\<not> sublist (placeholder_text (name v)) s"
  shows "substitute_variable v s = Some s"
  using assms
  by (simp add: substitute_variable_def compile_plain_name placeholder_regex_literal
      replace_all_def replace_from_no_occurrence)

text \<open>
  C5, as the code has it. With variable names free of pattern syntax characters, a text
  in which no \<^verbatim>\<open>{{name}}\<close> of a declared variable occurs is returned unchanged. So resolving
  twice gives what resolving once gives whenever the text resolved once holds no
  placeholder of a declared variable.
\<close>

theorem resolve_resolved_text_unchanged:
  assumes "\<forall>v\<in>set vs. plain_name (name v)"
  shows "((\<forall>v\<in>set vs. \<not> sublist (placeholder_text (name v)) s) \<longrightarrow>
            resolve_variables vs s = Some s)
       \<and> (resolve_variables vs c = Some t
            \<and> (\<forall>v\<in>set vs. \<not> sublist (placeholder_text (name v)) t) \<longrightarrow>
            Option.bind (resolve_variables vs c) (resolve_variables vs)
              = resolve_variables vs c)"
proof -
  have unchanged: "resolve_variables vs x = Some x"
    if "\<forall>v\<in>set vs. \<not> sublist (placeholder_text (name v)) x" for x
    using assms that by (induction vs) (simp_all add: substitute_variable_no_occurrence)
  show ?thesis
  proof (intro conjI impI)
    assume "\<forall>v\<in>set vs. \<not> sublist (placeholder_text (name v)) s"
    then show "resolve_variables vs s = Some s" by (rule unchanged)
  next
    assume a: "resolve_variables vs c = Some t
        \<and> (\<forall>v\<in>set vs. \<not> sublist (placeholder_text (name v)) t)"
    then have "resolve_variables vs t = Some t" using unchanged by blast
    with a show "Option.bind (resolve_variables vs c) (resolve_variables vs)
        = resolve_variables vs c"
      by simp
  qed
qed

theorem resolve_resolved_text_unchanged_witness:
  "resolve_variables
     [\<lparr>name = ''client'', description = None, default_value = Some ''ACME''\<rparr>,
      \<lparr>name = ''title'', description = None, default_value = Some ''Plan for {{client}}''\<rparr>]
     ''Plan for ACME'' = Some ''Plan for ACME''
 \<and> Option.bind
      (resolve_variables
        [\<lparr>name = ''client'', description = None, default_value = Some ''ACME''\<rparr>,
         \<lparr>name = ''title'', description = None,
          default_value = Some ''Plan for {{client}}''\<rparr>]
        ''Report for {{client}}'')
      (resolve_variables
        [\<lparr>name = ''client'', description = None, default_value = Some ''ACME''\<rparr>,
         \<lparr>name = ''title'', description = None,
          default_value = Some ''Plan for {{client}}''\<rparr>])
    = Some ''Report for ACME''"
proof -
  let ?vs = "[\<lparr>name = ''client'', description = None, default_value = Some ''ACME''\<rparr>,
      \<lparr>name = ''title'', description = None, default_value = Some ''Plan for {{client}}''\<rparr>]"
  have plain: "\<forall>v\<in>set ?vs. plain_name (name v)"
    by (simp add: plain_name_def syntax_character_def)
  have free: "\<forall>v\<in>set ?vs. \<not> sublist (placeholder_text (name v)) ''Plan for ACME''"
    by (simp add: placeholder_text_def sublist_code)
  have once: "resolve_variables ?vs ''Report for {{client}}'' = Some ''Report for ACME''
      \<and> (\<forall>v\<in>set ?vs. \<not> sublist (placeholder_text (name v)) ''Report for ACME'')"
    by (simp add: substitute_variable_def replace_all_def placeholder_regex_def
        replacement_text_def js_or_def atom_of_def syntax_character_def
        placeholder_text_def sublist_code)
  note a = resolve_resolved_text_unchanged [OF plain, where s = "''Plan for ACME''"
      and c = "[]" and t = "[]", THEN conjunct1, THEN mp, OF free]
  note b = resolve_resolved_text_unchanged [OF plain, where c = "''Report for {{client}}''"
      and t = "''Report for ACME''" and s = "[]", THEN conjunct2, THEN mp, OF once]
  from once b have "Option.bind (resolve_variables ?vs ''Report for {{client}}'')
      (resolve_variables ?vs) = Some ''Report for ACME''"
    by simp
  with a show ?thesis by simp
qed

text \<open>
  C5 as stated fails: the variables are replaced one after the other in the order of the
  list, and a text put in by a later variable is not looked at again for an earlier one.
  Resolving \<^verbatim>\<open>{{title}}\<close> gives a text that still holds \<^verbatim>\<open>{{client}}\<close>, and resolving that
  text changes it: resolving twice is not resolving once.
\<close>

theorem resolve_twice_differs:
  "resolve_variables
     [\<lparr>name = ''client'', description = None, default_value = Some ''ACME''\<rparr>,
      \<lparr>name = ''title'', description = None, default_value = Some ''Plan for {{client}}''\<rparr>]
     ''{{title}}'' = Some ''Plan for {{client}}''
 \<and> Option.bind
      (resolve_variables
        [\<lparr>name = ''client'', description = None, default_value = Some ''ACME''\<rparr>,
         \<lparr>name = ''title'', description = None,
          default_value = Some ''Plan for {{client}}''\<rparr>]
        ''{{title}}'')
      (resolve_variables
        [\<lparr>name = ''client'', description = None, default_value = Some ''ACME''\<rparr>,
         \<lparr>name = ''title'', description = None,
          default_value = Some ''Plan for {{client}}''\<rparr>])
    = Some ''Plan for ACME''"
  by (simp add: substitute_variable_def replace_all_def placeholder_regex_def
      replacement_text_def js_or_def atom_of_def syntax_character_def)

subsection \<open>What one round does for a plain name\<close>

lemma plain_brace_free: "plain_name n \<Longrightarrow> brace_free n"
  by (induction n) (auto simp: plain_name_def brace_free_def syntax_character_def)

lemma get_substitution_no_dollar:
  "CHR ''$'' \<notin> set r \<Longrightarrow> get_substitution m pre post r = r"
  by (induction m pre post r rule: get_substitution.induct) auto

lemma placeholder_length: "length (placeholder_text n) = length n + 4"
  by (simp add: placeholder_text_def)

lemma placeholder_nth0: "placeholder_text n ! 0 = CHR ''{''"
  by (simp add: placeholder_text_def)

lemma placeholder_nth1: "placeholder_text n ! Suc 0 = CHR ''{''"
  by (simp add: placeholder_text_def)

lemma placeholder_open_brace:
  assumes "brace_free n" and "k < length (placeholder_text n)" and "placeholder_text n ! k = CHR ''{''"
  shows "k < 2"
proof (rule ccontr)
  assume "\<not> k < 2"
  then obtain j where k: "k = Suc (Suc j)" by (metis not_less_eq numeral_2_eq_2 less_Suc_eq_0_disj not0_implies_Suc)
  with assms(2) have j: "j < length (n @ ''}}'')" by (simp add: placeholder_text_def)
  from k have "placeholder_text n ! k = (n @ ''}}'') ! j" by (simp add: placeholder_text_def)
  with j have "placeholder_text n ! k \<in> set (n @ ''}}'')" by (metis nth_mem)
  with assms(1,3) show False by (auto simp: brace_free_def list_all_iff)
qed

lemma prefix_nth: "prefix w s \<Longrightarrow> k < length w \<Longrightarrow> s ! k = w ! k"
  by (auto simp: prefix_def nth_append)

text \<open>A placeholder cannot start inside another one (at offset j > 0).\<close>
lemma no_start_inside:
  assumes "brace_free n" and "brace_free x" and "0 < j" and "j < length (placeholder_text x)"
  shows "\<not> prefix (placeholder_text n) (drop j (placeholder_text x) @ t)"
proof
  let ?w = "placeholder_text n" and ?X = "placeholder_text x"
  assume p: "prefix ?w (drop j ?X @ t)"
  have "(drop j ?X @ t) ! 0 = ?w ! 0" using p by (rule prefix_nth) (simp add: placeholder_length)
  moreover have "(drop j ?X @ t) ! 0 = ?X ! j" using assms(4) by (simp add: nth_append)
  ultimately have "?X ! j = CHR ''{''" by (simp add: placeholder_nth0)
  with assms(2,4) have "j < 2" by (rule placeholder_open_brace)
  with assms(3) have j1: "j = 1" by simp
  have "(drop j ?X @ t) ! 1 = ?w ! 1" using p by (rule prefix_nth) (simp add: placeholder_length)
  moreover have "(drop j ?X @ t) ! 1 = ?X ! 2" using j1 by (simp add: nth_append placeholder_length numeral_2_eq_2)
  ultimately have "?X ! 2 = CHR ''{''" by (simp add: placeholder_nth1)
  with assms(2) have "(2::nat) < 2" by (intro placeholder_open_brace [of x]) (simp_all add: placeholder_length)
  then show False by simp
qed

text \<open>A placeholder starting before another one cannot reach into it.\<close>
lemma no_reach_into:
  assumes "brace_free n" and "a \<noteq> []" and "length a < length (placeholder_text n)"
  shows "\<not> prefix (placeholder_text n) (a @ placeholder_text x @ t)"
proof
  let ?w = "placeholder_text n" and ?X = "placeholder_text x"
  assume p: "prefix ?w (a @ ?X @ t)"
  have "(a @ ?X @ t) ! length a = ?w ! length a" using p assms(3) by (rule prefix_nth)
  moreover have "(a @ ?X @ t) ! length a = ?X ! 0" by (simp add: nth_append placeholder_length)
  ultimately have "?w ! length a = CHR ''{''" by (simp add: placeholder_nth0)
  with assms(1,3) have "length a < 2" by (rule placeholder_open_brace)
  with assms(2) have a1: "length a = 1" by (cases a) auto
  have "(a @ ?X @ t) ! 2 = ?w ! 2" using p by (rule prefix_nth) (simp add: placeholder_length)
  moreover have "(a @ ?X @ t) ! 2 = ?X ! 1" using a1 by (simp add: nth_append placeholder_length numeral_2_eq_2)
  ultimately have "?w ! 2 = CHR ''{''" by (simp add: placeholder_nth1)
  with assms(1) have "(2::nat) < 2" by (intro placeholder_open_brace [of n]) (simp_all add: placeholder_length)
  then show False by simp
qed

lemma same_start_same_name:
  assumes "brace_free n" and "brace_free x" and "prefix (placeholder_text n) (placeholder_text x @ t)"
  shows "n = x"
proof -
  from assms(3) have p: "prefix (n @ ''}}'') (x @ ''}}'' @ t)"
    by (simp add: placeholder_text_def)
  from assms(1,2) have bn: "CHR ''}'' \<notin> set n" and bx: "CHR ''}'' \<notin> set x"
    by (auto simp: brace_free_def list_all_iff)
  show ?thesis
  proof (cases "length n" "length x" rule: linorder_cases)
    case less
    have "(x @ ''}}'' @ t) ! length n = (n @ ''}}'') ! length n" using p by (rule prefix_nth) simp
    then have "x ! length n = CHR ''}''" using less by (simp add: nth_append)
    with less bx show ?thesis by (metis nth_mem)
  next
    case equal
    from p obtain zs where "x @ ''}}'' @ t = n @ ''}}'' @ zs" by (auto simp: prefix_def)
    with equal show ?thesis by (simp add: append_eq_append_conv)
  next
    case greater
    have "(x @ ''}}'' @ t) ! length x = (n @ ''}}'') ! length x" using p by (rule prefix_nth) (use greater in simp)
    then have "n ! length x = CHR ''}''" using greater by (simp add: nth_append)
    with greater bn show ?thesis by (metis nth_mem)
  qed
qed

text \<open>A stretch of text in which no match starts is copied.\<close>
lemma replace_from_copy:
  "(\<forall>i<length a. \<not> match_here p (drop i (a @ t))) \<Longrightarrow>
   replace_from p r pre (a @ t) = a @ replace_from p r (pre @ a) t"
proof (induction a arbitrary: pre)
  case Nil
  then show ?case by simp
next
  case (Cons c a)
  from Cons.prems have h0: "\<not> match_here p (c # a @ t)"
    by (metis append_Cons drop0 length_greater_0_conv list.distinct(1))
  have hs: "\<forall>i<length a. \<not> match_here p (drop i (a @ t))"
  proof (intro allI impI)
    fix i assume "i < length a"
    then have "Suc i < length (c # a)" by simp
    with Cons.prems have "\<not> match_here p (drop (Suc i) ((c # a) @ t))" by blast
    then show "\<not> match_here p (drop i (a @ t))" by simp
  qed
  from h0 have "replace_from p r pre ((c # a) @ t) = c # replace_from p r (pre @ [c]) (a @ t)"
    by simp
  with Cons.IH [OF hs, of "pre @ [c]"] show ?case by simp
qed

lemma match_here_length: "match_here p s \<Longrightarrow> length p \<le> length s"
  by (induction p s rule: match_here.induct) auto

lemma replace_from_match:
  assumes "p \<noteq> []" and "match_here p s"
  shows "replace_from p r pre s =
     get_substitution (take (length p) s) pre (drop (length p) s) r
       @ replace_from p r (pre @ take (length p) s) (drop (length p) s)"
proof (cases s)
  case Nil
  with assms show ?thesis by (cases p) auto
next
  case (Cons c cs)
  with assms show ?thesis by simp
qed

text \<open>
  A stretch of text in which every match that starts also ends is replaced on its own; the
  scan goes on behind it.
\<close>
lemma replace_from_stretch:
  "(\<forall>i<length u. match_here p (drop i (u @ z)) \<longrightarrow> i + length p \<le> length u) \<Longrightarrow>
   \<exists>u'. replace_from p r pre (u @ z) = u' @ replace_from p r (pre @ u) z"
proof (induction "length u" arbitrary: u pre rule: less_induct)
  case less
  show ?case
  proof (cases u)
    case Nil
    then show ?thesis by simp
  next
    case (Cons c cs)
    show ?thesis
    proof (cases "p \<noteq> [] \<and> match_here p (u @ z)")
      case True
      then have pne: "p \<noteq> []" and m: "match_here p (u @ z)" by simp_all
      from less.prems m Cons have le: "length p \<le> length u"
        by (metis add_0 drop0 length_greater_0_conv list.distinct(1))
      let ?u2 = "drop (length p) u"
      from pne le Cons have shorter: "length ?u2 < length u" by (cases p) auto
      have cond: "\<forall>i<length ?u2. match_here p (drop i (?u2 @ z)) \<longrightarrow> i + length p \<le> length ?u2"
      proof (intro allI impI)
        fix i assume i: "i < length ?u2" and mi: "match_here p (drop i (?u2 @ z))"
        from i le have il: "i + length p < length u" by simp
        have "drop i (?u2 @ z) = drop (i + length p) (u @ z)"
          using le by (simp add: add.commute)
        with mi have "match_here p (drop (i + length p) (u @ z))" by simp
        with less.prems il have "i + length p + length p \<le> length u" by blast
        then show "i + length p \<le> length ?u2" by simp
      qed
      from less.hyps [OF shorter cond, of "pre @ take (length p) u"]
      obtain u' where u': "replace_from p r (pre @ take (length p) u) (?u2 @ z)
          = u' @ replace_from p r (pre @ take (length p) u @ ?u2) z"
        by auto
      have "replace_from p r pre (u @ z) =
          get_substitution (take (length p) (u @ z)) pre (drop (length p) (u @ z)) r
            @ replace_from p r (pre @ take (length p) (u @ z)) (drop (length p) (u @ z))"
        using pne m by (rule replace_from_match)
      also have "\<dots> = get_substitution (take (length p) u) pre (?u2 @ z) r
            @ replace_from p r (pre @ take (length p) u) (?u2 @ z)"
        using le by simp
      also have "\<dots> = (get_substitution (take (length p) u) pre (?u2 @ z) r @ u')
            @ replace_from p r (pre @ u) z"
        using u' by simp
      finally show ?thesis by blast
    next
      case False
      have shorter: "length cs < length u" using Cons by simp
      have cond: "\<forall>i<length cs. match_here p (drop i (cs @ z)) \<longrightarrow> i + length p \<le> length cs"
      proof (intro allI impI)
        fix i assume i: "i < length cs" and mi: "match_here p (drop i (cs @ z))"
        from i Cons have "Suc i < length u" by simp
        moreover from mi Cons have "match_here p (drop (Suc i) (u @ z))" by simp
        ultimately have "Suc i + length p \<le> length u" using less.prems by blast
        with Cons show "i + length p \<le> length cs" by simp
      qed
      from less.hyps [OF shorter cond, of "pre @ [c]"]
      obtain u' where u': "replace_from p r (pre @ [c]) (cs @ z)
          = u' @ replace_from p r (pre @ [c] @ cs) z"
        by auto
      from False Cons have "replace_from p r pre (u @ z) = c # replace_from p r (pre @ [c]) (cs @ z)"
        by auto
      with u' Cons have "replace_from p r pre (u @ z) = (c # u') @ replace_from p r (pre @ u) z"
        by simp
      then show ?thesis by blast
    qed
  qed
qed

lemma replace_from_keeps_placeholder:
  assumes "brace_free n" and "brace_free x" and "n \<noteq> x"
  shows "\<exists>u' t'. replace_from (map Lit (placeholder_text n)) r pre (u @ placeholder_text x @ t)
           = u' @ placeholder_text x @ t'"
proof -
  let ?w = "placeholder_text n" and ?X = "placeholder_text x"
  let ?p = "map Lit ?w"
  have "\<forall>i<length u. match_here ?p (drop i (u @ ?X @ t)) \<longrightarrow> i + length ?p \<le> length u"
  proof (intro allI impI)
    fix i assume i: "i < length u" and m: "match_here ?p (drop i (u @ ?X @ t))"
    from i m have pr: "prefix ?w (drop i u @ ?X @ t)"
      by (simp add: match_here_literal)
    from i have ne: "drop i u \<noteq> []" by simp
    have "\<not> length (drop i u) < length ?w"
      using no_reach_into [OF assms(1) ne] pr by blast
    with i show "i + length ?p \<le> length u" by simp
  qed
  then obtain u' where 1: "replace_from ?p r pre (u @ ?X @ t)
      = u' @ replace_from ?p r (pre @ u) (?X @ t)"
    using replace_from_stretch [of u ?p "?X @ t" r pre] by blast
  have "\<forall>j<length ?X. \<not> match_here ?p (drop j (?X @ t))"
  proof (intro allI impI)
    fix j assume j: "j < length ?X"
    show "\<not> match_here ?p (drop j (?X @ t))"
    proof (cases "j = 0")
      case True
      with assms same_start_same_name [of n x t] show ?thesis
        by (auto simp: match_here_literal)
    next
      case False
      with j no_start_inside [OF assms(1,2), of j t] show ?thesis
        by (simp add: match_here_literal)
    qed
  qed
  then have 2: "replace_from ?p r (pre @ u) (?X @ t)
      = ?X @ replace_from ?p r ((pre @ u) @ ?X) t"
    by (rule replace_from_copy)
  from 1 2 show ?thesis by auto
qed

lemma substitute_variable_keeps_placeholder:
  assumes "plain_name (name v)" and "brace_free x" and "name v \<noteq> x"
  shows "\<exists>u' t'. substitute_variable v (u @ placeholder_text x @ t)
           = Some (u' @ placeholder_text x @ t')"
  using replace_from_keeps_placeholder [OF plain_brace_free [OF assms(1)] assms(2,3)]
  by (simp add: substitute_variable_def compile_plain_name [OF assms(1)]
      placeholder_regex_literal replace_all_def)

text \<open>
  With declared names free of pattern syntax characters, a placeholder whose name is not
  declared and has no brace is still in the resolved text, between what the text before it
  and the text behind it have become.
\<close>

lemma resolve_variables_keeps_undeclared:
  assumes "\<forall>v\<in>set vs. plain_name (name v)" and "brace_free x" and "\<forall>v\<in>set vs. name v \<noteq> x"
  shows "\<exists>u' t'. resolve_variables vs (u @ placeholder_text x @ t)
           = Some (u' @ placeholder_text x @ t')"
  using assms
proof (induction vs arbitrary: u t)
  case Nil
  show ?case by (intro exI [of _ u] exI [of _ t]) simp
next
  case (Cons v vs)
  then have "plain_name (name v)" and "name v \<noteq> x" by simp_all
  from substitute_variable_keeps_placeholder [OF this(1) Cons.prems(2) this(2), of u t]
  obtain u1 t1 where 1: "substitute_variable v (u @ placeholder_text x @ t)
      = Some (u1 @ placeholder_text x @ t1)"
    by blast
  from Cons.IH [of u1 t1] Cons.prems
  obtain u' t' where "resolve_variables vs (u1 @ placeholder_text x @ t1)
      = Some (u' @ placeholder_text x @ t')"
    by auto
  with 1 have "resolve_variables (v # vs) (u @ placeholder_text x @ t)
      = Some (u' @ placeholder_text x @ t')"
    by simp
  then show ?case by blast
qed

lemma replace_from_context:
  "CHR ''$'' \<notin> set r \<Longrightarrow> replace_from p r pre s = replace_from p r pre' s"
proof (induction p r pre s arbitrary: pre' rule: replace_from.induct)
  case (1 p r pre)
  then show ?case by simp
next
  case (2 p r pre c cs)
  show ?case
  proof (cases "p \<noteq> [] \<and> match_here p (c # cs)")
    case True
    with "2.IH"(1) [OF True "2.prems", of "pre' @ take (length p) (c # cs)"] "2.prems"
    show ?thesis by (simp add: get_substitution_no_dollar)
  next
    case False
    with "2.IH"(2) [OF False "2.prems", of "pre' @ [c]"]
    show ?thesis by auto
  qed
qed

lemma replace_from_first_occurrence:
  assumes "brace_free n" and "\<not> sublist (placeholder_text n) a"
  shows "replace_from (map Lit (placeholder_text n)) r pre (a @ placeholder_text n @ b)
     = a @ get_substitution (placeholder_text n) (pre @ a) b r
         @ replace_from (map Lit (placeholder_text n)) r (pre @ a @ placeholder_text n) b"
proof -
  let ?w = "placeholder_text n"
  let ?p = "map Lit ?w"
  have "\<forall>i<length a. \<not> match_here ?p (drop i (a @ ?w @ b))"
  proof (intro allI impI)
    fix i assume i: "i < length a"
    show "\<not> match_here ?p (drop i (a @ ?w @ b))"
    proof
      assume "match_here ?p (drop i (a @ ?w @ b))"
      with i have pr: "prefix ?w (drop i a @ ?w @ b)"
        by (simp add: match_here_literal)
      from i have ne: "drop i a \<noteq> []" by simp
      have "\<not> length (drop i a) < length ?w"
        using no_reach_into [OF assms(1) ne] pr by blast
      then have ge: "length ?w \<le> length (drop i a)" by simp
      from pr have "prefix ?w (drop i a) \<or> (\<exists>us. ?w = drop i a @ us \<and> prefix us (?w @ b))"
        by (simp only: prefix_append)
      with ge have "prefix ?w (drop i a)" by auto
      then have "sublist ?w (drop i a)" by (rule prefix_imp_sublist)
      then have "sublist ?w a" by (metis sublist_drop sublist_order.order_trans)
      with assms(2) show False by simp
    qed
  qed
  then have "replace_from ?p r pre (a @ ?w @ b) = a @ replace_from ?p r (pre @ a) (?w @ b)"
    by (rule replace_from_copy)
  moreover have "replace_from ?p r (pre @ a) (?w @ b) =
      get_substitution (take (length ?p) (?w @ b)) (pre @ a) (drop (length ?p) (?w @ b)) r
        @ replace_from ?p r ((pre @ a) @ take (length ?p) (?w @ b)) (drop (length ?p) (?w @ b))"
  proof (rule replace_from_match)
    show "?p \<noteq> []" by (simp add: placeholder_text_def)
    show "match_here ?p (?w @ b)" by (simp add: match_here_literal)
  qed
  ultimately show ?thesis by simp
qed

text \<open>
  One round for a variable whose name has no pattern syntax character and whose
  replacement text has no dollar sign is the textual replace: the first occurrence of the
  placeholder becomes the replacement text, and the round goes on behind it.
\<close>

lemma substitute_variable_textual:
  assumes "plain_name (name v)" and "CHR ''$'' \<notin> set (replacement_text v)"
    and "\<not> sublist (placeholder_text (name v)) a"
  shows "\<exists>b'. substitute_variable v b = Some b'
     \<and> substitute_variable v (a @ placeholder_text (name v) @ b)
         = Some (a @ replacement_text v @ b')"
proof -
  let ?w = "placeholder_text (name v)" and ?r = "replacement_text v"
  have "replace_from (map Lit ?w) ?r [] (a @ ?w @ b)
      = a @ get_substitution ?w ([] @ a) b ?r @ replace_from (map Lit ?w) ?r ([] @ a @ ?w) b"
    using plain_brace_free [OF assms(1)] assms(3) by (rule replace_from_first_occurrence)
  also have "\<dots> = a @ ?r @ replace_from (map Lit ?w) ?r [] b"
    using replace_from_context [OF assms(2), of "map Lit ?w" "[] @ a @ ?w" b "[]"]
    by (simp add: get_substitution_no_dollar [OF assms(2)])
  finally show ?thesis
    by (simp add: substitute_variable_def compile_plain_name [OF assms(1)]
        placeholder_regex_literal replace_all_def)
qed

subsection \<open>Where a round is not the textual replace\<close>

text \<open>
  C1 at a default value with a dollar sign: the price tier \<^verbatim>\<open>$$\<close> is a replacement pattern
  of \<^verbatim>\<open>String.prototype.replace\<close>, and the placeholder is replaced by \<^verbatim>\<open>$\<close>, not by the
  default value.
\<close>

theorem dollar_default_not_verbatim:
  "resolve_prompt
     \<lparr>prompt_id = ''p1'', prompt_name = ''Menu'', content = ''Tier: {{price_tier}}'',
      variables = Some [\<lparr>name = ''price_tier'', description = Some ''price tier'',
                         default_value = Some ''$$''\<rparr>]\<rparr>
   = Some ''Tier: $''"
  by (simp add: resolve_prompt_def substitute_variable_def replace_all_def placeholder_regex_def
      replacement_text_def js_or_def atom_of_def syntax_character_def)

text \<open>
  C6 at a variable name with a dot: the dot of \<^verbatim>\<open>project.name\<close> is a wildcard of the
  pattern, so the placeholder \<^verbatim>\<open>{{project_name}}\<close> of an undeclared variable is replaced
  too.
\<close>

theorem dotted_name_rewrites_undeclared:
  "resolve_prompt
     \<lparr>prompt_id = ''p2'', prompt_name = ''Charter'',
      content = ''Owner of {{project_name}}: {{owner}}'',
      variables = Some [\<lparr>name = ''project.name'', description = Some ''name of the project'',
                         default_value = Some ''Inventory''\<rparr>]\<rparr>
   = Some ''Owner of Inventory: {{owner}}''"
  by (simp add: resolve_prompt_def substitute_variable_def replace_all_def placeholder_regex_def
      replacement_text_def js_or_def atom_of_def syntax_character_def line_terminator_def)

end
